theory Spec2Isabelle
  imports Main "HOL-Library.Word"
begin

unbundle bit_operations_syntax

section \<open>Values of the protocol engine\<close>

text \<open>
  The embedding follows \<^verbatim>\<open>tend/abci/protocol.py\<close>. Python \<^verbatim>\<open>bytes\<close> are lists of
  8-bit words, Python integers are unbounded (\<open>nat\<close>, since every integer here is a
  length, a position or a decoded unsigned varint), and every exception the code can
  raise is a value of \<open>error\<close>.
\<close>

type_synonym byte = "8 word"
type_synonym bytes = "byte list"

datatype error =
    IndexError
  | ValueError
  | TypeError
  | RuntimeError
  | AttributeError
  | InvalidStateError
  | NotImplementedError string
  | ConnectionResetError string
  | Raised string \<comment> \<open>any exception raised by an external collaborator\<close>

text \<open>
  Modelled from the spec: the generated message classes of \<^verbatim>\<open>..pb.tendermint.abci\<close>
  (\<^verbatim>\<open>Request\<close>, \<^verbatim>\<open>Response\<close>, \<^verbatim>\<open>ResponseEcho\<close>, \<^verbatim>\<open>ResponseFlush\<close>) are imported by
  \<^verbatim>\<open>protocol.py\<close> and their source is not at hand. The engine only looks at three things:
  whether a value is \<^verbatim>\<open>None\<close>, the attribute \<^verbatim>\<open>.message\<close> of an echo request, and the two
  responses it builds itself. Every other message is opaque (\<open>Message\<close>, with the name
  of its class and its content).
\<close>

datatype message =
    PyNone
  | RequestEcho string
  | ResponseEcho string
  | ResponseFlush
  | Message string bytes

text \<open>The attribute access \<^verbatim>\<open>message.message\<close> of line 93.\<close>

fun message_attr :: "message \<Rightarrow> error + string" where
  "message_attr (RequestEcho m) = Inr m"
| "message_attr (ResponseEcho m) = Inr m"
| "message_attr _ = Inl AttributeError"

text \<open>
  The four handler classes of \<^verbatim>\<open>.handlers\<close>, used only as the argument of
  \<^verbatim>\<open>app.get_connection_handler\<close>, and a handler object: its identity and the names that
  \<^verbatim>\<open>getattr(self.handler, name, None)\<close> finds on it.
\<close>

datatype category = InfoHandler | ConsensusHandler | StateSyncHandler | MempoolHandler

datatype handler = Handler (ident: nat) (operations: "string list")

section \<open>The varint codec\<close>

text \<open>
  Modelled from the spec: \<^verbatim>\<open>betterproto.encode_varint\<close> and \<^verbatim>\<open>betterproto.decode_varint\<close>
  are imported by \<^verbatim>\<open>protocol.py\<close> and their source is not at hand. The spec calls the prefix
  a variable-length unsigned integer and says that the decoder may raise; this is the
  base-128 varint of protocol buffers: seven bits per byte, least significant group
  first, bit \<open>0x80\<close> set on every byte but the last. The decoder reads \<^verbatim>\<open>buffer[pos]\<close>
  byte by byte, so it raises \<open>IndexError\<close> when the buffer ends inside a varint, and
  \<open>ValueError\<close> after ten continuation bytes.
\<close>

function encode_varint :: "nat \<Rightarrow> bytes" where
  "encode_varint v =
     (if drop_bit 7 v = 0 then [of_nat (v AND 0x7F)]
      else of_nat (0x80 OR (v AND 0x7F)) # encode_varint (drop_bit 7 v))"
  by pat_completeness auto
termination
  by (relation "measure id") (auto simp: drop_bit_eq_div intro: div_less_dividend)

function decode_varint_loop :: "bytes \<Rightarrow> nat \<Rightarrow> nat \<Rightarrow> nat \<Rightarrow> error + nat \<times> nat" where
  "decode_varint_loop buffer pos result shift =
     (if length buffer \<le> pos then Inl IndexError
      else if unat (buffer ! pos) AND 0x80 = 0
        then Inr (result OR push_bit shift (unat (buffer ! pos) AND 0x7F), pos + 1)
      else if 64 \<le> shift + 7 then Inl ValueError
      else decode_varint_loop buffer (pos + 1)
             (result OR push_bit shift (unat (buffer ! pos) AND 0x7F)) (shift + 7))"
  by pat_completeness auto
termination
  by (relation "measure (\<lambda>(buffer, pos, result, shift). length buffer - pos)") auto

definition decode_varint :: "bytes \<Rightarrow> nat \<Rightarrow> error + nat \<times> nat" where
  "decode_varint buffer pos = decode_varint_loop buffer pos 0 0"

declare encode_varint.simps [simp del] decode_varint_loop.simps [simp del]

section \<open>The connection\<close>

text \<open>
  An \<^verbatim>\<open>asyncio.Task\<close> running \<^verbatim>\<open>async_response(name, message)\<close> is a small state machine:
  it is created (line 115), it may suspend in \<^verbatim>\<open>await self.app.get_connection_handler(...)\<close>
  (lines 79, 82, 86, 88) and in \<^verbatim>\<open>await handler(message)\<close> (line 102), and it ends with a
  result or an exception. A suspended task records what it waits for.
\<close>

datatype phase =
    Created
  | AwaitFactory category
  | AwaitOperation handler
  | is_Done: Done (outcome: "error + message")

text \<open>
  A callable, as far as a call can tell: the number of its parameters and what its body
  does. Line 117 registers \<^verbatim>\<open>lambda _: self.process_response_tasks()\<close>, line 59 registers
  \<^verbatim>\<open>lambda: self.server_state.connections.discard(self)\<close>.
\<close>

datatype body = ProcessResponseTasks | DiscardSelf

datatype callable = Lambda (params: nat) (body: body)

record task =
  arg_name :: string
  arg_message :: message
  phase :: phase
  done_callback :: callable

text \<open>The task of \<^verbatim>\<open>close()\<close>, created by \<^verbatim>\<open>connection_lost\<close> (lines 54 to 59).\<close>

datatype close_phase =
    CloseCreated
  | CloseGathering "nat list"
  | is_CloseDone: CloseDone "error option"

record close_task =
  cause :: error
  close_phase :: close_phase
  close_callback :: callable

text \<open>
  The \<^verbatim>\<open>Protocol\<close> object together with the objects it shares: \<open>heap\<close> holds every task
  the connection created, addressed by its index (the identity of the task object),
  \<open>tasks\<close> is the deque of \<^verbatim>\<open>(name, task)\<close> pairs, \<open>transport\<close> lists the arguments of
  the calls of \<^verbatim>\<open>transport.write\<close> in order, \<open>connections\<close> is
  \<^verbatim>\<open>server_state.connections\<close>, a set of protocol identities of which \<open>self\<close> is this one,
  and \<open>peername\<close> is what \<^verbatim>\<open>transport.get_extra_info('peername')\<close> returns: \<^verbatim>\<open>None\<close>, or
  the items of the peer name.
\<close>

record protocol =
  buffer :: bytes
  handler :: "handler option"
  tasks :: "(string \<times> nat) list"
  heap :: "task list"
  transport :: "bytes list"
  connections :: "nat set"
  self :: nat
  close_task :: "close_task option"
  peername :: "string list option"

definition new_protocol :: "nat \<Rightarrow> nat set \<Rightarrow> string list option \<Rightarrow> protocol" where
  "new_protocol me conns peer =
     \<lparr>buffer = [], handler = None, tasks = [], heap = [], transport = [],
      connections = conns, self = me, close_task = None, peername = peer\<rparr>"

subsection \<open>Lines 47 to 49: connection_made\<close>

definition connection_made :: "protocol \<Rightarrow> protocol" where
  "connection_made s = s\<lparr>connections := insert (self s) (connections s)\<rparr>"

subsection \<open>Lines 73 to 117: process_request and the coroutine async_response\<close>

text \<open>Lines 115 to 117: the task is created, queued, and given its done callback.\<close>

definition process_request :: "protocol \<Rightarrow> string \<Rightarrow> message \<Rightarrow> protocol" where
  "process_request s name message =
     s\<lparr>heap := heap s @
          [\<lparr>arg_name = name, arg_message = message, phase = Created,
            done_callback = Lambda 1 ProcessResponseTasks\<rparr>],
       tasks := tasks s @ [(name, length (heap s))]\<rparr>"

text \<open>Lines 78 to 88: the handler class asked for, by request name.\<close>

definition classify :: "string \<Rightarrow> category option" where
  "classify name =
     (if name \<in> set [''info'', ''set_option'', ''query''] then Some InfoHandler
      else if name \<in> set [''init_chain'', ''begin_block'', ''deliver_tx'', ''end_block'', ''commit'']
        then Some ConsensusHandler
      else if name \<in> set [''list_snapshots'', ''offer_snapshot'', ''load_snapshot_chunk'',
                           ''apply_snapshot_chunk'']
        then Some StateSyncHandler
      else if name = ''check_tx'' then Some MempoolHandler
      else None)"

text \<open>Lines 92 to 96.\<close>

definition response_echo :: "message \<Rightarrow> error + message" where
  "response_echo message = (case message_attr message of Inl e \<Rightarrow> Inl e | Inr m \<Rightarrow> Inr (ResponseEcho m))"

definition response_flush :: "error + message" where
  "response_flush = Inr ResponseFlush"

text \<open>Line 109: the exception and its text.\<close>

definition not_implemented :: "string \<Rightarrow> error" where
  "not_implemented name =
     NotImplementedError (''Async ABCI Method `'' @ name @ ''` is not implemented'')"

text \<open>
  Lines 103 to 110, from the value \<open>response\<close> has after the handler stage. An exception
  is logged and raised again (lines 111 to 113), so it is the task's outcome.
\<close>

definition conclude :: "string \<Rightarrow> message \<Rightarrow> message \<Rightarrow> error + message" where
  "conclude name message response =
     (case (if response = PyNone
            then (if name = ''echo'' then response_echo message
                  else if name = ''flush'' then response_flush
                  else Inr response)
            else Inr response) of
        Inl e \<Rightarrow> Inl e
      | Inr response' \<Rightarrow>
          if response' = PyNone then Inl (not_implemented name) else Inr response')"

definition set_phase :: "protocol \<Rightarrow> nat \<Rightarrow> phase \<Rightarrow> protocol" where
  "set_phase s t p = s\<lparr>heap := (heap s)[t := (heap s ! t)\<lparr>phase := p\<rparr>]\<rparr>"

text \<open>
  Lines 98 to 102, up to the await of the handler's operation: with a handler bound and
  an operation of that name on it the task suspends in the operation; otherwise
  \<open>response\<close> is still \<^verbatim>\<open>None\<close> at line 103.
\<close>

definition dispatch :: "protocol \<Rightarrow> nat \<Rightarrow> protocol" where
  "dispatch s t =
     (let name = arg_name (heap s ! t); message = arg_message (heap s ! t) in
      case handler s of
        None \<Rightarrow> set_phase s t (Done (conclude name message PyNone))
      | Some h \<Rightarrow>
          if name \<in> set (operations h) then set_phase s t (AwaitOperation h)
          else set_phase s t (Done (conclude name message PyNone)))"

text \<open>
  Lines 42 to 45, the property \<^verbatim>\<open>remote\<close>: the first two items of the peer name of the
  transport. \<^verbatim>\<open>get_extra_info('peername')\<close> is \<^verbatim>\<open>None\<close> when the transport has no peer
  name, and \<^verbatim>\<open>None[:2]\<close> raises \<open>TypeError\<close>.
\<close>

definition remote :: "protocol \<Rightarrow> error + string list" where
  "remote s = (case peername s of None \<Rightarrow> Inl TypeError | Some items \<Rightarrow> Inr (take 2 items))"

text \<open>
  The log lines 80, 83, 85 and 89: their text is built from \<^verbatim>\<open>self.remote\<close>, so they
  raise when \<^verbatim>\<open>remote\<close> does. They are outside the \<^verbatim>\<open>try\<close>.
\<close>

definition log_established :: "protocol \<Rightarrow> error option" where
  "log_established s = (case remote s of Inl e \<Rightarrow> Some e | Inr peer \<Rightarrow> None)"

text \<open>
  The first run of the task: lines 77 to 89, up to the await of the factory. In the
  state-sync branch the log line (85) comes before the await (86); in the other three
  branches it comes after the assignment.
\<close>

definition start :: "protocol \<Rightarrow> nat \<Rightarrow> protocol" where
  "start s t =
     (if handler s = None then
        (case classify (arg_name (heap s ! t)) of
           Some c \<Rightarrow>
             if c = StateSyncHandler then
               (case log_established s of
                  Some e \<Rightarrow> set_phase s t (Done (Inl e))
                | None \<Rightarrow> set_phase s t (AwaitFactory c))
             else set_phase s t (AwaitFactory c)
         | None \<Rightarrow> dispatch s t)
      else dispatch s t)"

text \<open>
  The factory's coroutine ends, for a task that waits for it: with an exception the task
  ends with it (the await is outside the \<^verbatim>\<open>try\<close>); with a handler the assignment to
  \<^verbatim>\<open>self.handler\<close> is made, then the log line of the branch is written (lines 80, 83 and
  89; the state-sync branch has none here), and the task goes on at line 98.
\<close>

definition factory_returns :: "protocol \<Rightarrow> nat \<Rightarrow> error + handler \<Rightarrow> protocol" where
  "factory_returns s t r =
     (case phase (heap s ! t) of
        AwaitFactory c \<Rightarrow>
          (case r of
             Inl e \<Rightarrow> set_phase s t (Done (Inl e))
           | Inr h \<Rightarrow>
               if c = StateSyncHandler then dispatch (s\<lparr>handler := Some h\<rparr>) t
               else
                 (case log_established s of
                    Some e \<Rightarrow> set_phase (s\<lparr>handler := Some h\<rparr>) t (Done (Inl e))
                  | None \<Rightarrow> dispatch (s\<lparr>handler := Some h\<rparr>) t))
      | _ \<Rightarrow> s)"

text \<open>The handler's operation ends (line 102), and the task goes on at line 103.\<close>

definition operation_returns :: "protocol \<Rightarrow> nat \<Rightarrow> error + message \<Rightarrow> protocol" where
  "operation_returns s t r =
     (case r of
        Inl e \<Rightarrow> set_phase s t (Done (Inl e))
      | Inr response \<Rightarrow>
          set_phase s t
            (Done (conclude (arg_name (heap s ! t)) (arg_message (heap s ! t)) response)))"

subsection \<open>Lines 61 to 71: data_received\<close>

text \<open>
  \<open>parse\<close> stands for \<^verbatim>\<open>betterproto.which_one_of(Request().parse(data), "value")\<close>, which
  is an external library call and may raise. The loop returns the connection, the payloads it
  cut out of the buffer (the values of the local \<^verbatim>\<open>data\<close> at line 67, in order), and the
  exception that ended it, if any. An exception leaves the object as it was when raised.
\<close>

function data_received_loop ::
  "(bytes \<Rightarrow> error + string \<times> message) \<Rightarrow> protocol \<Rightarrow> protocol \<times> bytes list \<times> error option"
where
  "data_received_loop parse s =
     (if length (buffer s) = 0 then (s, [], None)
      else case decode_varint (buffer s) 0 of
        Inl e \<Rightarrow> (s, [], Some e)
      | Inr (result, pos) \<Rightarrow>
          if length (buffer s) \<ge> pos + drop_bit 1 result then
            (case parse (take (drop_bit 1 result) (drop pos (buffer s))) of
               Inl e \<Rightarrow>
                 (s\<lparr>buffer := drop (pos + drop_bit 1 result) (buffer s)\<rparr>,
                  [take (drop_bit 1 result) (drop pos (buffer s))], Some e)
             | Inr (name, message) \<Rightarrow>
                 (case data_received_loop parse
                         (process_request
                            (s\<lparr>buffer := drop (pos + drop_bit 1 result) (buffer s)\<rparr>)
                            name message) of
                    (s', frames, e) \<Rightarrow>
                      (s', take (drop_bit 1 result) (drop pos (buffer s)) # frames, e)))
          else (s, [], None))"
  by pat_completeness auto
termination
proof -
  have loop: "p < p'" if "decode_varint_loop b p r sh = Inr (v, p')" for b p r sh v p'
    using that
  proof (induction b p r sh rule: decode_varint_loop.induct)
    case (1 buffer pos result shift)
    show ?case
    proof (cases "length buffer \<le> pos \<or> unat (buffer ! pos) AND 0x80 = 0 \<or> 64 \<le> shift + 7")
      case True
      with "1.prems" show ?thesis
        by (auto simp: decode_varint_loop.simps[of buffer pos result shift] split: if_splits)
    next
      case False
      then have "decode_varint_loop buffer (pos + 1)
          (result OR push_bit shift (unat (buffer ! pos) AND 0x7F)) (shift + 7) = Inr (v, p')"
        using "1.prems" by (simp add: decode_varint_loop.simps[of buffer pos result shift])
      with False "1.IH" have "pos + 1 < p'" by blast
      then show ?thesis by simp
    qed
  qed
  show ?thesis
    by (relation "measure (\<lambda>(parse, s). length (buffer s))")
       (auto simp: process_request_def decode_varint_def dest!: loop)
qed

declare data_received_loop.simps [simp del]

definition data_received ::
  "(bytes \<Rightarrow> error + string \<times> message) \<Rightarrow> protocol \<Rightarrow> bytes \<Rightarrow> protocol \<times> bytes list \<times> error option"
where
  "data_received parse s data = data_received_loop parse (s\<lparr>buffer := buffer s @ data\<rparr>)"

subsection \<open>Lines 119 to 139: draining the queue\<close>

text \<open>
  \<open>serialize name message\<close> stands for \<^verbatim>\<open>bytes(Response(**{name: message}))\<close>, whose
  schema is external. Lines 136 to 139: two writes, the prefix and the body.
\<close>

definition process_response ::
  "(string \<Rightarrow> message \<Rightarrow> bytes) \<Rightarrow> protocol \<Rightarrow> string \<Rightarrow> message \<Rightarrow> protocol"
where
  "process_response serialize s name message =
     (let data = serialize name message in
      s\<lparr>transport := transport s @ [encode_varint (push_bit 1 (length data)), data]\<rparr>)"

text \<open>\<^verbatim>\<open>deque.remove(x)\<close> removes the first element equal to \<open>x\<close> and raises when there is none.\<close>

definition deque_remove :: "protocol \<Rightarrow> string \<times> nat \<Rightarrow> protocol \<times> error option" where
  "deque_remove s x =
     (if x \<in> set (tasks s) then (s\<lparr>tasks := remove1 x (tasks s)\<rparr>, None)
      else (s, Some ValueError))"

text \<open>
  Lines 127 to 134. \<^verbatim>\<open>task.exception()\<close> raises on a task that is not done; the
  \<^verbatim>\<open>finally\<close> clause runs on every path, and an exception raised in it replaces the one
  in flight.
\<close>

definition process_response_task ::
  "(string \<Rightarrow> message \<Rightarrow> bytes) \<Rightarrow> protocol \<Rightarrow> string \<Rightarrow> nat \<Rightarrow> protocol \<times> error option"
where
  "process_response_task serialize s name t =
     (let (s1, raised) =
            (case phase (heap s ! t) of
               Done (Inl e) \<Rightarrow> (s, Some e)
             | Done (Inr result) \<Rightarrow> (process_response serialize s name result, None)
             | _ \<Rightarrow> (s, Some InvalidStateError));
          (s2, raised_finally) = deque_remove s1 (name, t)
      in (s2, case raised_finally of Some e \<Rightarrow> Some e | None \<Rightarrow> raised))"

text \<open>Lines 119 to 125. An exception of \<open>process_response_task\<close> leaves the loop.\<close>

function process_response_tasks ::
  "(string \<Rightarrow> message \<Rightarrow> bytes) \<Rightarrow> protocol \<Rightarrow> protocol \<times> error option"
where
  "process_response_tasks serialize s =
     (case tasks s of
        [] \<Rightarrow> (s, None)
      | (name, t) # rest \<Rightarrow>
          if is_Done (phase (heap s ! t)) then
            (case process_response_task serialize s name t of
               (s', Some e) \<Rightarrow> (s', Some e)
             | (s', None) \<Rightarrow> process_response_tasks serialize s')
          else (s, None))"
  by pat_completeness auto
termination
  by (relation "measure (\<lambda>(serialize, s). length (tasks s))")
     (auto simp: process_response_task_def process_response_def deque_remove_def Let_def
           split: phase.splits sum.splits if_splits)

declare process_response_tasks.simps [simp del]

subsection \<open>Calling a callback\<close>

text \<open>
  A call with a number of arguments other than the number of parameters raises
  \<open>TypeError\<close> before the body runs. asyncio calls a done callback with one argument, the
  future that is done.
\<close>

fun run_body :: "(string \<Rightarrow> message \<Rightarrow> bytes) \<Rightarrow> protocol \<Rightarrow> body \<Rightarrow> protocol \<times> error option" where
  "run_body serialize s ProcessResponseTasks = process_response_tasks serialize s"
| "run_body serialize s DiscardSelf = (s\<lparr>connections := connections s - {self s}\<rparr>, None)"

definition call ::
  "(string \<Rightarrow> message \<Rightarrow> bytes) \<Rightarrow> protocol \<Rightarrow> callable \<Rightarrow> nat \<Rightarrow> protocol \<times> error option"
where
  "call serialize s f nargs =
     (if params f = nargs then run_body serialize s (body f) else (s, Some TypeError))"

subsection \<open>Lines 51 to 59: connection_lost\<close>

text \<open>
  \<^verbatim>\<open>asyncio.Task.set_exception\<close> (the tasks of the deque are made by
  \<^verbatim>\<open>asyncio.create_task\<close>) is the library's
  \<^verbatim>\<open>raise RuntimeError('Task does not support set_exception operation')\<close>.
\<close>

definition set_exception :: "task \<Rightarrow> error \<Rightarrow> error + task" where
  "set_exception task exc = Inl RuntimeError"

text \<open>Line 55: the list comprehension, which ends at the first call that raises.\<close>

fun force_all :: "task list \<Rightarrow> (string \<times> nat) list \<Rightarrow> error \<Rightarrow> error + task list" where
  "force_all h [] exc = Inr h"
| "force_all h ((name, t) # rest) exc =
     (case set_exception (h ! t) exc of
        Inl e \<Rightarrow> Inl e
      | Inr task' \<Rightarrow> force_all (h[t := task']) rest exc)"

text \<open>
  Line 56: \<^verbatim>\<open>await asyncio.gather(...)\<close> raises the exception of a task that failed, returns
  once all tasks are done, and waits otherwise.
\<close>

fun first_failure :: "task list \<Rightarrow> nat list \<Rightarrow> error option" where
  "first_failure h [] = None"
| "first_failure h (t # ts) =
     (case phase (h ! t) of Done (Inl e) \<Rightarrow> Some e | _ \<Rightarrow> first_failure h ts)"

definition gather :: "task list \<Rightarrow> nat list \<Rightarrow> close_phase" where
  "gather h ts =
     (case first_failure h ts of
        Some e \<Rightarrow> CloseDone (Some e)
      | None \<Rightarrow>
          if list_all (\<lambda>t. is_Done (phase (h ! t))) ts then CloseDone None
          else CloseGathering ts)"

text \<open>Lines 52, 58 and 59: the cause, the task of \<^verbatim>\<open>close()\<close> and its done callback.\<close>

definition connection_lost :: "protocol \<Rightarrow> error option \<Rightarrow> protocol" where
  "connection_lost s exc =
     s\<lparr>close_task := Some
         \<lparr>cause = (case exc of None \<Rightarrow> ConnectionResetError ''Connection reset'' | Some e \<Rightarrow> e),
          close_phase = CloseCreated,
          close_callback = Lambda 0 DiscardSelf\<rparr>\<rparr>"

text \<open>The task of \<^verbatim>\<open>close()\<close> runs (lines 55 and 56) until it waits or ends.\<close>

definition close :: "protocol \<Rightarrow> protocol" where
  "close s =
     (case close_task s of
        None \<Rightarrow> s
      | Some c \<Rightarrow>
          (case close_phase c of
             CloseCreated \<Rightarrow>
               (case force_all (heap s) (tasks s) (cause c) of
                  Inl e \<Rightarrow> s\<lparr>close_task := Some (c\<lparr>close_phase := CloseDone (Some e)\<rparr>)\<rparr>
                | Inr h \<Rightarrow>
                    s\<lparr>heap := h,
                      close_task := Some (c\<lparr>close_phase := gather h (map snd (tasks s))\<rparr>)\<rparr>)
           | CloseGathering ts \<Rightarrow>
               s\<lparr>close_task := Some (c\<lparr>close_phase := gather (heap s) ts\<rparr>)\<rparr>
           | CloseDone r \<Rightarrow> s))"

text \<open>The done callback of the task of \<^verbatim>\<open>close()\<close>, called once that task is done.\<close>

definition close_done :: "(string \<Rightarrow> message \<Rightarrow> bytes) \<Rightarrow> protocol \<Rightarrow> protocol \<times> error option" where
  "close_done serialize s =
     (case close_task s of
        None \<Rightarrow> (s, None)
      | Some c \<Rightarrow>
          if is_CloseDone (close_phase c) then call serialize s (close_callback c) 1
          else (s, None))"

section \<open>The event loop\<close>

text \<open>
  What the event loop and the peer can do to one connection, one event at a time:
  deliver bytes, run a task that was created, end the await of a factory or of a
  handler's operation with any result, call the done callback of a task that is done,
  report the loss of the connection, run the task of \<^verbatim>\<open>close()\<close>, call its done callback.
  An await may end at once or after any number of other events, so the events cover an
  application that suspends and one that does not. asyncio calls a done callback once;
  here it may be called again, which only runs \<open>process_response_tasks\<close> once more.
  An event that is not enabled changes nothing. An exception that reaches the event loop
  is logged there, and the connection object stays as the exception left it.
\<close>

datatype event =
    DataReceived bytes
  | Run nat
  | FactoryReturns nat "error + handler"
  | OperationReturns nat "error + message"
  | DoneCallback nat
  | ConnectionLost "error option"
  | RunClose
  | CloseCallback

definition awaits_factory :: "phase \<Rightarrow> bool" where
  "awaits_factory p = (case p of AwaitFactory c \<Rightarrow> True | _ \<Rightarrow> False)"

definition awaits_operation :: "phase \<Rightarrow> bool" where
  "awaits_operation p = (case p of AwaitOperation h \<Rightarrow> True | _ \<Rightarrow> False)"

fun fire ::
  "(bytes \<Rightarrow> error + string \<times> message) \<Rightarrow> (string \<Rightarrow> message \<Rightarrow> bytes) \<Rightarrow>
   protocol \<Rightarrow> event \<Rightarrow> protocol"
where
  "fire parse serialize s (DataReceived data) = fst (data_received parse s data)"
| "fire parse serialize s (Run t) =
     (if t < length (heap s) \<and> phase (heap s ! t) = Created then start s t else s)"
| "fire parse serialize s (FactoryReturns t r) =
     (if t < length (heap s) \<and> awaits_factory (phase (heap s ! t))
      then factory_returns s t r else s)"
| "fire parse serialize s (OperationReturns t r) =
     (if t < length (heap s) \<and> awaits_operation (phase (heap s ! t))
      then operation_returns s t r else s)"
| "fire parse serialize s (DoneCallback t) =
     (if t < length (heap s) \<and> is_Done (phase (heap s ! t))
      then fst (call serialize s (done_callback (heap s ! t)) 1) else s)"
| "fire parse serialize s (ConnectionLost exc) = connection_lost s exc"
| "fire parse serialize s RunClose = close s"
| "fire parse serialize s CloseCallback = fst (close_done serialize s)"

definition run ::
  "(bytes \<Rightarrow> error + string \<times> message) \<Rightarrow> (string \<Rightarrow> message \<Rightarrow> bytes) \<Rightarrow>
   protocol \<Rightarrow> event list \<Rightarrow> protocol"
where
  "run parse serialize s events = foldl (fire parse serialize) s events"

text \<open>
  Feeding fragments to the decoder: one call of \<open>data_received\<close> per fragment. An
  exception of \<open>data_received\<close> is fatal to the connection (the transport closes it), so
  the fragments after it are not delivered.
\<close>

fun feed ::
  "(bytes \<Rightarrow> error + string \<times> message) \<Rightarrow> protocol \<Rightarrow> bytes list \<Rightarrow>
   protocol \<times> bytes list \<times> error option"
where
  "feed parse s [] = (s, [], None)"
| "feed parse s (d # ds) =
     (case data_received parse s d of
        (s1, frames, Some e) \<Rightarrow> (s1, frames, Some e)
      | (s1, frames, None) \<Rightarrow>
          (case feed parse s1 ds of (s2, frames2, e) \<Rightarrow> (s2, frames @ frames2, e)))"

text \<open>The wire form of a payload: line 138 then line 139.\<close>

definition frame :: "bytes \<Rightarrow> bytes" where
  "frame payload = encode_varint (push_bit 1 (length payload)) @ payload"

section \<open>The order of emission\<close>

text \<open>
  Task \<open>t\<close> of the heap is the \<open>t\<close>-th request that was enqueued. \<open>emitted s\<close> counts
  the units that have left the queue, \<open>wire\<close> is what draining a unit writes (the two
  writes of \<open>process_response\<close> for a result, nothing for an exception), and
  \<open>ordered\<close> says: the queue holds the units \<open>emitted s\<close>, \<open>emitted s + 1\<close>, ... in
  that order, every unit before them is done, and the transport has received exactly
  what the units \<open>0\<close>, ..., \<open>emitted s - 1\<close> write, in that order.
\<close>

definition emitted :: "protocol \<Rightarrow> nat" where
  "emitted s = length (heap s) - length (tasks s)"

definition wire :: "(string \<Rightarrow> message \<Rightarrow> bytes) \<Rightarrow> task \<Rightarrow> bytes list" where
  "wire serialize task =
     (case phase task of
        Done (Inr result) \<Rightarrow>
          [encode_varint (push_bit 1 (length (serialize (arg_name task) result))),
           serialize (arg_name task) result]
      | _ \<Rightarrow> [])"

definition ordered :: "(string \<Rightarrow> message \<Rightarrow> bytes) \<Rightarrow> protocol \<Rightarrow> bool" where
  "ordered serialize s \<longleftrightarrow>
     length (tasks s) \<le> length (heap s) \<and>
     tasks s = map (\<lambda>t. (arg_name (heap s ! t), t)) [emitted s..<length (heap s)] \<and>
     list_all (\<lambda>task. is_Done (phase task)) (take (emitted s) (heap s)) \<and>
     transport s = concat (map (wire serialize) (take (emitted s) (heap s)))"

section \<open>Frames in the buffer\<close>

text \<open>
  \<open>is_frame raw payload\<close>: the bytes \<open>raw\<close> are one complete frame, a length prefix
  followed by exactly the announced number of payload bytes, and \<open>payload\<close> is that
  payload. \<open>partial_frame b\<close>: \<open>b\<close> starts with a complete length prefix that announces
  more payload bytes than \<open>b\<close> holds. \<open>delivered parse s payload\<close>: what the decoder
  returns when it has cut exactly \<open>payload\<close> out of the buffer and nothing is left.
\<close>

definition is_frame :: "bytes \<Rightarrow> bytes \<Rightarrow> bool" where
  "is_frame raw payload =
     (case decode_varint raw 0 of
        Inl e \<Rightarrow> False
      | Inr (result, pos) \<Rightarrow> raw = take pos raw @ payload \<and> length payload = drop_bit 1 result)"

definition partial_frame :: "bytes \<Rightarrow> bool" where
  "partial_frame b =
     (case decode_varint b 0 of
        Inl e \<Rightarrow> False
      | Inr (result, pos) \<Rightarrow> length b < pos + drop_bit 1 result)"

definition delivered ::
  "(bytes \<Rightarrow> error + string \<times> message) \<Rightarrow> protocol \<Rightarrow> bytes \<Rightarrow> protocol \<times> bytes list \<times> error option"
where
  "delivered parse s payload =
     (case parse payload of
        Inl e \<Rightarrow> (s\<lparr>buffer := []\<rparr>, [payload], Some e)
      | Inr (name, message) \<Rightarrow> (process_request (s\<lparr>buffer := []\<rparr>) name message, [payload], None))"


section \<open>Sample inputs\<close>

text \<open>
  A parser, a serializer and a few connection states on which the theorems below are
  evaluated. The parser reads the request kind off the first byte of the payload.
\<close>

definition sample_peer :: "string list" where
  "sample_peer = [''127.0.0.1'', ''26658'']"

definition sample_parse :: "bytes \<Rightarrow> error + string \<times> message" where
  "sample_parse d =
     (if d = [] then Inr ([], PyNone)
      else if hd d = 1 then Inr (''info'', Message ''RequestInfo'' d)
      else if hd d = 2 then Inr (''begin_block'', Message ''RequestBeginBlock'' d)
      else if hd d = 3 then Inr (''echo'', RequestEcho ''hi'')
      else if hd d = 4 then Inr (''flush'', Message ''RequestFlush'' [])
      else Inl (Raised ''parse''))"

definition sample_serialize :: "string \<Rightarrow> message \<Rightarrow> bytes" where
  "sample_serialize name message = (case message of Message cls content \<Rightarrow> content | _ \<Rightarrow> [])"

definition sample_task :: "string \<Rightarrow> message \<Rightarrow> phase \<Rightarrow> task" where
  "sample_task name message p =
     \<lparr>arg_name = name, arg_message = message, phase = p,
      done_callback = Lambda 1 ProcessResponseTasks\<rparr>"

definition sample_queue :: "(string \<times> message \<times> phase) list \<Rightarrow> protocol" where
  "sample_queue units =
     (new_protocol 0 {0} (Some sample_peer))
       \<lparr>heap := map (\<lambda>(name, message, p). sample_task name message p) units,
        tasks := zip (map fst units) [0..<length units]\<rparr>"

text \<open>
  The frame of a payload of 64 bytes has a prefix of two bytes; here it arrives in two
  fragments, the first of which ends after the first byte of the prefix.
\<close>

definition split_prefix :: "bytes list" where
  "split_prefix = [[0x80], 0x01 # 1 # replicate 63 0]"

text \<open>
  Two requests arrive in one read, an info request and a begin_block request. Both tasks
  run up to their await of the factory before the factory has answered either, and the
  factory then answers the first.
\<close>

definition two_pipelined :: protocol where
  "two_pipelined =
     run sample_parse sample_serialize (new_protocol 0 {} (Some sample_peer))
       [DataReceived (frame [1] @ frame [2]), Run 0, Run 1,
        FactoryReturns 0 (Inr (Handler 10 [''info'']))]"

text \<open>
  A registered connection with one unit pending loses its transport, which reports no
  cause, and the task of \<^verbatim>\<open>close()\<close> has run.
\<close>

definition lost_with_pending :: protocol where
  "lost_with_pending =
     run sample_parse sample_serialize (connection_made (new_protocol 0 {} (Some sample_peer)))
       [DataReceived (frame [1]), Run 0, ConnectionLost None, RunClose]"


text \<open>
  A connection whose transport has no peer name, with no handler bound, on which one
  request has been enqueued: a list_snapshots request, or an info request.
\<close>

definition no_peer_state_sync :: protocol where
  "no_peer_state_sync =
     (sample_queue [(''list_snapshots'', Message ''RequestListSnapshots'' [], Created)])
       \<lparr>peername := None\<rparr>"

definition no_peer_info :: protocol where
  "no_peer_info =
     (sample_queue [(''info'', Message ''RequestInfo'' [], Created)])\<lparr>peername := None\<rparr>"


section \<open>The coroutine of a request\<close>

lemma heap_set_phase:
  "t < length (heap s) \<Longrightarrow> phase (heap (set_phase s t p) ! t) = p"
  by (simp add: set_phase_def)

lemma handler_set_phase: "handler (set_phase s t p) = handler s"
  by (simp add: set_phase_def)

lemma handler_dispatch: "handler (dispatch s t) = handler s"
  by (simp add: dispatch_def Let_def handler_set_phase split: option.splits)

lemma handler_start: "handler (start s t) = handler s"
  by (simp add: start_def handler_dispatch handler_set_phase split: option.splits)

lemma handler_factory_returns:
  "phase (heap s ! t) = AwaitFactory c \<Longrightarrow> handler (factory_returns s t (Inr h)) = Some h"
  by (simp add: factory_returns_def handler_dispatch handler_set_phase split: option.splits)

lemma start_unbound_classified:
  "handler s = None \<Longrightarrow> t < length (heap s) \<Longrightarrow> classify (arg_name (heap s ! t)) = Some c \<Longrightarrow>
   c = StateSyncHandler \<longrightarrow> peername s \<noteq> None \<Longrightarrow>
   phase (heap (start s t) ! t) = AwaitFactory c"
  by (auto simp: start_def heap_set_phase log_established_def remote_def)

lemma start_unbound_unclassified:
  "handler s = None \<Longrightarrow> t < length (heap s) \<Longrightarrow> classify (arg_name (heap s ! t)) = None \<Longrightarrow>
   is_Done (phase (heap (start s t) ! t))"
  by (simp add: start_def dispatch_def heap_set_phase)

text \<open>
  C6. With no handler bound, the computation of an echo request carrying \<open>m\<close> ends at
  its first run with the response \<open>ResponseEcho m\<close>, and that of a flush request with
  \<open>ResponseFlush\<close>; in both cases the connection still has no handler afterwards, and the
  task never waits for the factory.
\<close>

theorem echo_flush_short_circuit:
  "handler s = None \<Longrightarrow> t < length (heap s) \<Longrightarrow>
   (arg_name (heap s ! t) = ''echo'' \<and> arg_message (heap s ! t) = RequestEcho m \<longrightarrow>
      phase (heap (start s t) ! t) = Done (Inr (ResponseEcho m)) \<and> handler (start s t) = None) \<and>
   (arg_name (heap s ! t) = ''flush'' \<longrightarrow>
      phase (heap (start s t) ! t) = Done (Inr ResponseFlush) \<and> handler (start s t) = None)"
  by (simp add: start_def classify_def dispatch_def conclude_def response_echo_def
        response_flush_def heap_set_phase handler_set_phase)

theorem echo_flush_short_circuit_witness:
  "phase (heap (start (sample_queue [(''echo'', RequestEcho ''ping'', Created)]) 0) ! 0) =
     Done (Inr (ResponseEcho ''ping'')) \<and>
   handler (start (sample_queue [(''echo'', RequestEcho ''ping'', Created)]) 0) = None \<and>
   phase (heap (start (sample_queue [(''flush'', Message ''RequestFlush'' [], Created)]) 0) ! 0) =
     Done (Inr ResponseFlush)"
  using echo_flush_short_circuit[of "sample_queue [(''echo'', RequestEcho ''ping'', Created)]" 0 "''ping''"]
    echo_flush_short_circuit[of "sample_queue [(''flush'', Message ''RequestFlush'' [], Created)]" 0 "[]"]
  by (simp add: sample_queue_def sample_task_def new_protocol_def)

lemma classified_request_binds:
  "handler s = None \<Longrightarrow> t < length (heap s) \<Longrightarrow> arg_name (heap s ! t) = name \<Longrightarrow>
   (name \<in> {''info'', ''set_option'', ''query''} \<longrightarrow>
      phase (heap (start s t) ! t) = AwaitFactory InfoHandler) \<and>
   (name \<in> {''init_chain'', ''begin_block'', ''deliver_tx'', ''end_block'', ''commit''} \<longrightarrow>
      phase (heap (start s t) ! t) = AwaitFactory ConsensusHandler) \<and>
   (name \<in> {''list_snapshots'', ''offer_snapshot'', ''load_snapshot_chunk'',
             ''apply_snapshot_chunk''} \<and> peername s \<noteq> None \<longrightarrow>
      phase (heap (start s t) ! t) = AwaitFactory StateSyncHandler) \<and>
   (name = ''check_tx'' \<longrightarrow> phase (heap (start s t) ! t) = AwaitFactory MempoolHandler) \<and>
   (name \<notin> {''info'', ''set_option'', ''query'', ''init_chain'', ''begin_block'', ''deliver_tx'',
              ''end_block'', ''commit'', ''list_snapshots'', ''offer_snapshot'',
              ''load_snapshot_chunk'', ''apply_snapshot_chunk'', ''check_tx''} \<longrightarrow>
      is_Done (phase (heap (start s t) ! t))) \<and>
   handler (start s t) = None \<and>
   (phase (heap (start s t) ! t) = AwaitFactory c \<longrightarrow>
      handler (factory_returns (start s t) t (Inr h)) = Some h)"
proof -
  assume unbound: "handler s = None" and t: "t < length (heap s)"
    and name: "arg_name (heap s ! t) = name"
  have info: "phase (heap (start s t) ! t) = AwaitFactory InfoHandler"
    if "name \<in> {''info'', ''set_option'', ''query''}"
  proof (rule start_unbound_classified[OF unbound t, where c = InfoHandler])
    show "classify (arg_name (heap s ! t)) = Some InfoHandler"
      using that name by (auto simp: classify_def)
    show "InfoHandler = StateSyncHandler \<longrightarrow> peername s \<noteq> None"
      using that by simp
  qed
  have consensus: "phase (heap (start s t) ! t) = AwaitFactory ConsensusHandler"
    if "name \<in> {''init_chain'', ''begin_block'', ''deliver_tx'', ''end_block'', ''commit''}"
  proof (rule start_unbound_classified[OF unbound t, where c = ConsensusHandler])
    show "classify (arg_name (heap s ! t)) = Some ConsensusHandler"
      using that name by (auto simp: classify_def)
    show "ConsensusHandler = StateSyncHandler \<longrightarrow> peername s \<noteq> None"
      using that by simp
  qed
  have statesync: "phase (heap (start s t) ! t) = AwaitFactory StateSyncHandler"
    if "name \<in> {''list_snapshots'', ''offer_snapshot'', ''load_snapshot_chunk'',
                  ''apply_snapshot_chunk''}" "peername s \<noteq> None"
  proof (rule start_unbound_classified[OF unbound t, where c = StateSyncHandler])
    show "classify (arg_name (heap s ! t)) = Some StateSyncHandler"
      using that name by (auto simp: classify_def)
    show "StateSyncHandler = StateSyncHandler \<longrightarrow> peername s \<noteq> None"
      using that by simp
  qed
  have mempool: "phase (heap (start s t) ! t) = AwaitFactory MempoolHandler"
    if "name = ''check_tx''"
  proof (rule start_unbound_classified[OF unbound t, where c = MempoolHandler])
    show "classify (arg_name (heap s ! t)) = Some MempoolHandler"
      using that name by (auto simp: classify_def)
    show "MempoolHandler = StateSyncHandler \<longrightarrow> peername s \<noteq> None"
      using that by simp
  qed
  have other: "is_Done (phase (heap (start s t) ! t))"
    if "name \<notin> {''info'', ''set_option'', ''query'', ''init_chain'', ''begin_block'', ''deliver_tx'',
              ''end_block'', ''commit'', ''list_snapshots'', ''offer_snapshot'',
              ''load_snapshot_chunk'', ''apply_snapshot_chunk'', ''check_tx''}"
    using that name by (intro start_unbound_unclassified[OF unbound t]) (simp add: classify_def)
  have bound: "handler (factory_returns (start s t) t (Inr h)) = Some h"
    if "phase (heap (start s t) ! t) = AwaitFactory c"
    using that by (rule handler_factory_returns)
  have h0: "handler (start s t) = None"
    using unbound by (simp add: handler_start)
  show ?thesis
  proof (intro conjI impI)
    show "handler (start s t) = None" by (rule h0)
  qed (erule info consensus mempool other bound | rule statesync, blast, blast)+
qed

text \<open>
  C8. A list_snapshots request arrives on a connection that has no handler bound and
  whose transport has no peer name. The log line of the state-sync branch (line 85)
  comes before the await of the factory and raises \<open>TypeError\<close>: the task ends with
  that error, the factory is never asked, and no handler is bound. An info request on
  the same connection does ask the factory, and the handler returned is bound before
  the log line of its branch (line 80) raises. The lemma above shows the classification
  of the claim for every name, the state-sync names on a transport with a peer name.
\<close>

theorem state_sync_log_raises_before_binding:
  "handler no_peer_state_sync = None \<and>
   arg_name (heap no_peer_state_sync ! 0) = ''list_snapshots'' \<and>
   phase (heap (start no_peer_state_sync 0) ! 0) = Done (Inl TypeError) \<and>
   handler (start no_peer_state_sync 0) = None \<and>
   phase (heap (start no_peer_info 0) ! 0) = AwaitFactory InfoHandler \<and>
   handler (factory_returns (start no_peer_info 0) 0 (Inr (Handler 7 [''info'']))) =
     Some (Handler 7 [''info'']) \<and>
   phase (heap (factory_returns (start no_peer_info 0) 0 (Inr (Handler 7 [''info'']))) ! 0) =
     Done (Inl TypeError)"
  by code_simp

text \<open>
  C10. When the bound handler has an operation of the request's name, the computation
  waits for it; when the operation returns \<^verbatim>\<open>None\<close>, the computation goes on as if there
  had been no response: an echo request gets the built-in echo response, a flush request
  the built-in acknowledgement, and any other request fails with the
  unimplemented-operation error.
\<close>

theorem operation_without_value:
  "t < length (heap s) \<Longrightarrow> handler s = Some h \<Longrightarrow> arg_name (heap s ! t) = name \<Longrightarrow>
   arg_message (heap s ! t) = message \<Longrightarrow> name \<in> set (operations h) \<Longrightarrow>
   phase (heap (dispatch s t) ! t) = AwaitOperation h \<and>
   (name = ''echo'' \<and> message = RequestEcho m \<longrightarrow>
      phase (heap (operation_returns (dispatch s t) t (Inr PyNone)) ! t) =
        Done (Inr (ResponseEcho m))) \<and>
   (name = ''flush'' \<longrightarrow>
      phase (heap (operation_returns (dispatch s t) t (Inr PyNone)) ! t) =
        Done (Inr ResponseFlush)) \<and>
   (name \<noteq> ''echo'' \<and> name \<noteq> ''flush'' \<longrightarrow>
      phase (heap (operation_returns (dispatch s t) t (Inr PyNone)) ! t) =
        Done (Inl (not_implemented name)))"
proof -
  assume t: "t < length (heap s)" and h: "handler s = Some h"
    and n: "arg_name (heap s ! t) = name" and msg: "arg_message (heap s ! t) = message"
    and op: "name \<in> set (operations h)"
  have d: "dispatch s t = set_phase s t (AwaitOperation h)"
    using h n op by (simp add: dispatch_def)
  have args: "arg_name (heap (set_phase s t p) ! t) = name"
    "arg_message (heap (set_phase s t p) ! t) = message"
    "t < length (heap (set_phase s t p))" for p
    using t n msg by (simp_all add: set_phase_def)
  have r: "phase (heap (operation_returns (dispatch s t) t (Inr PyNone)) ! t) =
             Done (conclude name message PyNone)"
    unfolding d by (simp add: operation_returns_def args heap_set_phase)
  show ?thesis
    unfolding r unfolding d using t
    by (auto simp: heap_set_phase conclude_def response_echo_def response_flush_def)
qed

theorem operation_without_value_witness:
  "phase (heap (dispatch ((sample_queue [(''info'', Message ''RequestInfo'' [], Created)])
                  \<lparr>handler := Some (Handler 7 [''info''])\<rparr>) 0) ! 0) =
     AwaitOperation (Handler 7 [''info'']) \<and>
   phase (heap (operation_returns
                  (dispatch ((sample_queue [(''info'', Message ''RequestInfo'' [], Created)])
                     \<lparr>handler := Some (Handler 7 [''info''])\<rparr>) 0) 0 (Inr PyNone)) ! 0) =
     Done (Inl (not_implemented ''info'')) \<and>
   phase (heap (operation_returns
                  (dispatch ((sample_queue [(''echo'', RequestEcho ''ping'', Created)])
                     \<lparr>handler := Some (Handler 7 [''echo''])\<rparr>) 0) 0 (Inr PyNone)) ! 0) =
     Done (Inr (ResponseEcho ''ping''))"
  using operation_without_value[where t = 0
          and s = "(sample_queue [(''info'', Message ''RequestInfo'' [], Created)])
                     \<lparr>handler := Some (Handler 7 [''info''])\<rparr>"
          and h = "Handler 7 [''info'']" and name = "''info''"
          and message = "Message ''RequestInfo'' []" and m = "''ping''"]
    operation_without_value[where t = 0
          and s = "(sample_queue [(''echo'', RequestEcho ''ping'', Created)])
                     \<lparr>handler := Some (Handler 7 [''echo''])\<rparr>"
          and h = "Handler 7 [''echo'']" and name = "''echo''"
          and message = "RequestEcho ''ping''" and m = "''ping''"]
  by (simp add: sample_queue_def sample_task_def new_protocol_def)

section \<open>Draining\<close>

text \<open>
  C9. Draining the unit at the head of the queue removes exactly that one entry from
  the queue, whether its computation ended with a result or with an exception; in the
  second case the exception is raised out of the drain after the removal.
\<close>

theorem drained_head_removed_once:
  "tasks s = (name, t) # rest \<Longrightarrow> phase (heap s ! t) = Done r \<Longrightarrow>
   tasks (fst (process_response_task serialize s name t)) = rest \<and>
   snd (process_response_task serialize s name t) = (case r of Inl e \<Rightarrow> Some e | Inr result \<Rightarrow> None)"
  by (cases r) (simp_all add: process_response_task_def process_response_def deque_remove_def Let_def)

theorem drained_head_removed_once_witness:
  "tasks (fst (process_response_task sample_serialize
            (sample_queue [(''info'', Message ''RequestInfo'' [], Done (Inl (Raised ''boom''))),
                           (''query'', Message ''RequestQuery'' [], Created)]) ''info'' 0)) =
     [(''query'', 1)] \<and>
   snd (process_response_task sample_serialize
            (sample_queue [(''info'', Message ''RequestInfo'' [], Done (Inl (Raised ''boom''))),
                           (''query'', Message ''RequestQuery'' [], Created)]) ''info'' 0) =
     Some (Raised ''boom'')"
  using drained_head_removed_once[of
          "sample_queue [(''info'', Message ''RequestInfo'' [], Done (Inl (Raised ''boom''))),
                         (''query'', Message ''RequestQuery'' [], Created)]"
          "''info''" 0 "[(''query'', 1)]" "Inl (Raised ''boom'')" sample_serialize]
  by (simp add: sample_queue_def sample_task_def new_protocol_def upt_rec)




section \<open>Responses leave in the order of the requests\<close>

lemma ordered_new: "ordered serialize (new_protocol me conns peer)"
  by (simp add: ordered_def emitted_def new_protocol_def)

lemma ordered_fields [simp]:
  "ordered serialize (s\<lparr>buffer := b\<rparr>) = ordered serialize s"
  "ordered serialize (s\<lparr>handler := h\<rparr>) = ordered serialize s"
  "ordered serialize (s\<lparr>connections := c\<rparr>) = ordered serialize s"
  "ordered serialize (s\<lparr>close_task := ct\<rparr>) = ordered serialize s"
  by (simp_all add: ordered_def emitted_def)

lemma ordered_process_request:
  assumes "ordered serialize s"
  shows "ordered serialize (process_request s name message)"
proof -
  let ?n = "length (heap s)" and ?k = "emitted s"
  let ?new = "\<lparr>arg_name = name, arg_message = message, phase = Created,
            done_callback = Lambda 1 ProcessResponseTasks\<rparr>"
  from assms have le: "length (tasks s) \<le> ?n" by (simp add: ordered_def)
  then have k: "?k \<le> ?n" and k': "emitted (process_request s name message) = ?k"
    by (simp_all add: emitted_def process_request_def)
  have old: "map (\<lambda>t. (arg_name ((heap s @ [?new]) ! t), t)) [?k..<?n] =
             map (\<lambda>t. (arg_name (heap s ! t), t)) [?k..<?n]"
    by (rule map_cong) (auto simp: nth_append)
  show ?thesis
    using assms k
    unfolding ordered_def k'
    by (auto simp: process_request_def nth_append)
qed

lemma ordered_set_phase:
  assumes "ordered serialize s" and t: "t < length (heap s)"
    and pending: "\<not> is_Done (phase (heap s ! t))"
  shows "ordered serialize (set_phase s t p)"
proof -
  let ?k = "emitted s"
  have kt: "?k \<le> t"
  proof (rule ccontr)
    assume "\<not> ?k \<le> t"
    then have "t < ?k" by simp
    with assms(1) t have "is_Done (phase (heap s ! t))"
      by (simp add: ordered_def list_all_length)
    with pending show False by simp
  qed
  have k': "emitted (set_phase s t p) = ?k"
    by (simp add: emitted_def set_phase_def)
  have names: "map (\<lambda>u. (arg_name ((heap s)[t := (heap s ! t)\<lparr>phase := p\<rparr>] ! u), u))
                 [?k..<length (heap s)] =
               map (\<lambda>u. (arg_name (heap s ! u), u)) [?k..<length (heap s)]"
    using t by (intro map_cong) (auto simp: nth_list_update)
  show ?thesis
    using assms(1) kt
    unfolding ordered_def k'
    by (simp add: set_phase_def names)
qed

lemma ordered_dispatch:
  "ordered serialize s \<Longrightarrow> t < length (heap s) \<Longrightarrow> \<not> is_Done (phase (heap s ! t)) \<Longrightarrow>
   ordered serialize (dispatch s t)"
  by (simp add: dispatch_def Let_def ordered_set_phase split: option.splits)

lemma ordered_start:
  "ordered serialize s \<Longrightarrow> t < length (heap s) \<Longrightarrow> \<not> is_Done (phase (heap s ! t)) \<Longrightarrow>
   ordered serialize (start s t)"
  by (simp add: start_def ordered_dispatch ordered_set_phase split: option.splits)

lemma ordered_factory_returns:
  "ordered serialize s \<Longrightarrow> t < length (heap s) \<Longrightarrow> \<not> is_Done (phase (heap s ! t)) \<Longrightarrow>
   ordered serialize (factory_returns s t r)"
  by (auto simp: factory_returns_def ordered_dispatch ordered_set_phase
        split: phase.splits sum.splits option.splits)

lemma ordered_operation_returns:
  "ordered serialize s \<Longrightarrow> t < length (heap s) \<Longrightarrow> \<not> is_Done (phase (heap s ! t)) \<Longrightarrow>
   ordered serialize (operation_returns s t r)"
  by (cases r) (simp_all add: operation_returns_def ordered_set_phase)

lemma ordered_data_received_loop:
  "ordered serialize s \<Longrightarrow> ordered serialize (fst (data_received_loop parse s))"
proof (induction parse s rule: data_received_loop.induct)
  case (1 parse s)
  show ?case
  proof (cases "length (buffer s) = 0")
    case True
    with "1.prems" show ?thesis by (simp add: data_received_loop.simps[of parse s])
  next
    case False
    note nonempty = this
    show ?thesis
    proof (cases "decode_varint (buffer s) 0")
      case (Inl e)
      with nonempty "1.prems" show ?thesis by (simp add: data_received_loop.simps[of parse s])
    next
      case (Inr b)
      obtain result pos where b: "b = (result, pos)" by (cases b)
      show ?thesis
      proof (cases "pos + drop_bit 1 result \<le> length (buffer s)")
        case False
        with nonempty Inr b "1.prems" show ?thesis
          by (simp add: data_received_loop.simps[of parse s])
      next
        case True
        note complete = this
        show ?thesis
        proof (cases "parse (take (drop_bit 1 result) (drop pos (buffer s)))")
          case (Inl e)
          with nonempty Inr b complete "1.prems" show ?thesis
            by (simp add: data_received_loop.simps[of parse s])
        next
          case (Inr ba)
          obtain name message where ba: "ba = (name, message)" by (cases ba)
          have "ordered serialize
                  (process_request (s\<lparr>buffer := drop (pos + drop_bit 1 result) (buffer s)\<rparr>)
                     name message)"
            using "1.prems" by (simp add: ordered_process_request)
          from "1.IH"[OF nonempty \<open>decode_varint (buffer s) 0 = Inr b\<close> b[symmetric] complete
                 Inr ba[symmetric] this]
          show ?thesis
            using nonempty \<open>decode_varint (buffer s) 0 = Inr b\<close> b complete Inr ba
            by (auto simp: data_received_loop.simps[of parse s] split: prod.splits)
        qed
      qed
    qed
  qed
qed

lemma ordered_data_received:
  "ordered serialize s \<Longrightarrow> ordered serialize (fst (data_received parse s data))"
  by (simp add: data_received_def ordered_data_received_loop)


lemma process_response_task_effect:
  assumes "tasks s = (name, t) # rest" and "phase (heap s ! t) = Done r"
  shows "fst (process_response_task serialize s name t) =
           s\<lparr>transport := transport s @
                 (case r of Inl e \<Rightarrow> []
                  | Inr result \<Rightarrow> [encode_varint (push_bit 1 (length (serialize name result))),
                                   serialize name result]),
             tasks := rest\<rparr>"
  using assms
  by (cases r) (simp_all add: process_response_task_def process_response_def deque_remove_def Let_def)

lemma ordered_process_response_task:
  assumes ord: "ordered serialize s" and head: "tasks s = (name, t) # rest"
    and fin: "is_Done (phase (heap s ! t))"
  shows "ordered serialize (fst (process_response_task serialize s name t))"
proof -
  let ?k = "emitted s" and ?n = "length (heap s)"
  let ?f = "\<lambda>t. (arg_name (heap s ! t), t)"
  from ord have le: "length (tasks s) \<le> ?n" by (simp add: ordered_def)
  from head have q: "0 < length (tasks s)" by simp
  from le q have kn: "?k < ?n" unfolding emitted_def by linarith
  from ord have tasks_eq: "tasks s = map ?f [?k..<?n]"
    by (simp add: ordered_def)
  have upt: "[?k..<?n] = ?k # [Suc ?k..<?n]"
    using kn by (rule upt_conv_Cons)
  have ts: "tasks s = ?f ?k # map ?f [Suc ?k..<?n]"
    by (subst tasks_eq, subst upt) simp
  have "(name, t) # rest = ?f ?k # map ?f [Suc ?k..<?n]"
    by (rule ts[unfolded head])
  then have name: "name = arg_name (heap s ! ?k)" and t: "t = ?k"
    and rest: "rest = map ?f [Suc ?k..<?n]"
    by (simp_all only: list.inject prod.inject)
  have k': "?n - length rest = Suc ?k"
    using le head unfolding emitted_def by simp
  have tk: "take (Suc ?k) (heap s) = take ?k (heap s) @ [heap s ! ?k]"
    using kn by (simp add: take_Suc_conv_app_nth)
  obtain r where r: "phase (heap s ! t) = Done r"
    using fin by (cases "phase (heap s ! t)") simp_all
  let ?s' = "fst (process_response_task serialize s name t)"
  note eff = process_response_task_effect[OF head r, of serialize]
  have h': "heap ?s' = heap s" and t': "tasks ?s' = rest"
    unfolding eff by simp_all
  have w: "transport ?s' = transport s @ wire serialize (heap s ! ?k)"
    unfolding eff using r[unfolded t] name by (cases r) (simp_all add: wire_def)
  have e': "emitted ?s' = Suc ?k"
    unfolding emitted_def h' t' using k' by (simp add: emitted_def)
  have c1: "length (tasks ?s') \<le> length (heap ?s')"
    unfolding h' t' using le head by simp
  have c2: "tasks ?s' = map (\<lambda>t. (arg_name (heap ?s' ! t), t)) [emitted ?s'..<length (heap ?s')]"
    unfolding e' h' t' by (rule rest)
  have c3: "list_all (\<lambda>task. is_Done (phase task)) (take (emitted ?s') (heap ?s'))"
    unfolding e' h' tk using ord fin[unfolded t] by (simp add: ordered_def)
  have c4: "transport ?s' = concat (map (wire serialize) (take (emitted ?s') (heap ?s')))"
    unfolding e' h' tk w using ord by (simp add: ordered_def)
  show ?thesis
    unfolding ordered_def using c1 c2 c3 c4 by blast
qed


lemma ordered_process_response_tasks:
  "ordered serialize s \<Longrightarrow> ordered serialize (fst (process_response_tasks serialize s))"
proof (induction serialize s rule: process_response_tasks.induct)
  case (1 serialize s)
  show ?case
  proof (cases "tasks s")
    case Nil
    with "1.prems" show ?thesis by (simp add: process_response_tasks.simps[of serialize s])
  next
    case (Cons x rest)
    obtain name t where x: "x = (name, t)" by (cases x)
    note head = Cons[unfolded x]
    show ?thesis
    proof (cases "is_Done (phase (heap s ! t))")
      case False
      with head "1.prems" show ?thesis
        by (simp add: process_response_tasks.simps[of serialize s])
    next
      case True
      obtain s' raised where step: "process_response_task serialize s name t = (s', raised)"
        by (cases "process_response_task serialize s name t")
      have ord': "ordered serialize s'"
        using ordered_process_response_task[OF "1.prems" head True] step by simp
      show ?thesis
      proof (cases raised)
        case (Some e)
        with head True step ord' show ?thesis
          by (simp add: process_response_tasks.simps[of serialize s])
      next
        case None
        from "1.IH"[OF Cons x[symmetric] True step[symmetric] None ord']
        show ?thesis
          using head True step None
          by (simp add: process_response_tasks.simps[of serialize s])
      qed
    qed
  qed
qed

lemma ordered_call:
  "ordered serialize s \<Longrightarrow> ordered serialize (fst (call serialize s f nargs))"
  by (cases "body f") (simp_all add: call_def ordered_process_response_tasks)

lemma force_all_unchanged: "force_all h ts exc = Inr h' \<Longrightarrow> h' = h"
  by (cases ts) (auto simp: set_exception_def)

lemma ordered_close: "ordered serialize s \<Longrightarrow> ordered serialize (close s)"
  by (auto simp: close_def split: option.splits close_phase.splits sum.splits
        dest!: force_all_unchanged)

lemma ordered_close_done:
  "ordered serialize s \<Longrightarrow> ordered serialize (fst (close_done serialize s))"
  by (simp add: close_done_def ordered_call split: option.splits)

lemma awaits_not_done:
  "awaits_factory p \<Longrightarrow> \<not> is_Done p" "awaits_operation p \<Longrightarrow> \<not> is_Done p"
  by (cases p; simp add: awaits_factory_def awaits_operation_def)+

lemma ordered_fire:
  "ordered serialize s \<Longrightarrow> ordered serialize (fire parse serialize s ev)"
  by (cases ev)
    (simp_all add: ordered_data_received ordered_start ordered_factory_returns
       ordered_operation_returns ordered_call ordered_close ordered_close_done
       connection_lost_def awaits_not_done)

lemma ordered_run:
  "ordered serialize s \<Longrightarrow> ordered serialize (run parse serialize s events)"
  unfolding run_def by (induction events arbitrary: s) (simp_all add: ordered_fire)

text \<open>
  C1. Whatever the peer sends and in whatever order the event loop runs the tasks, ends
  their awaits and calls their done callbacks, the connection is \<open>ordered\<close> after every
  event: the units that have been emitted are exactly the first \<open>emitted s\<close> requests
  in the order they were enqueued, the transport holds their responses in that order,
  and the queue holds all later units in that order. A unit is therefore emitted only
  from the head of the queue, after every earlier unit.
\<close>

theorem responses_in_enqueue_order:
  "ordered serialize (run parse serialize (new_protocol me conns peer) events)"
  by (rule ordered_run[OF ordered_new])

theorem responses_in_enqueue_order_witness:
  "ordered sample_serialize
     (run sample_parse sample_serialize (new_protocol 0 {} (Some sample_peer))
        [DataReceived (frame [1, 5] @ frame [1, 6]), Run 0,
         FactoryReturns 0 (Inr (Handler 7 [''info''])), Run 1,
         OperationReturns 1 (Inr (Message ''ResponseInfo'' [9])), DoneCallback 1,
         OperationReturns 0 (Inr (Message ''ResponseInfo'' [8])), DoneCallback 0]) \<and>
   transport
     (run sample_parse sample_serialize (new_protocol 0 {} (Some sample_peer))
        [DataReceived (frame [1, 5] @ frame [1, 6]), Run 0,
         FactoryReturns 0 (Inr (Handler 7 [''info''])), Run 1,
         OperationReturns 1 (Inr (Message ''ResponseInfo'' [9])), DoneCallback 1]) = [] \<and>
   transport
     (run sample_parse sample_serialize (new_protocol 0 {} (Some sample_peer))
        [DataReceived (frame [1, 5] @ frame [1, 6]), Run 0,
         FactoryReturns 0 (Inr (Handler 7 [''info''])), Run 1,
         OperationReturns 1 (Inr (Message ''ResponseInfo'' [9])), DoneCallback 1,
         OperationReturns 0 (Inr (Message ''ResponseInfo'' [8])), DoneCallback 0]) =
     [[2], [8], [2], [9]]"
proof (intro conjI)
  show "ordered sample_serialize
     (run sample_parse sample_serialize (new_protocol 0 {} (Some sample_peer))
        [DataReceived (frame [1, 5] @ frame [1, 6]), Run 0,
         FactoryReturns 0 (Inr (Handler 7 [''info''])), Run 1,
         OperationReturns 1 (Inr (Message ''ResponseInfo'' [9])), DoneCallback 1,
         OperationReturns 0 (Inr (Message ''ResponseInfo'' [8])), DoneCallback 0])"
    by (rule responses_in_enqueue_order)
qed code_simp+

section \<open>The accumulation buffer\<close>

lemma decode_varint_loop_advances:
  "decode_varint_loop b p r sh = Inr (v, p') \<Longrightarrow> p < p' \<and> p' \<le> length b"
proof (induction b p r sh rule: decode_varint_loop.induct)
  case (1 buffer pos result shift)
  show ?case
  proof (cases "length buffer \<le> pos \<or> unat (buffer ! pos) AND 0x80 = 0 \<or> 64 \<le> shift + 7")
    case True
    with "1.prems" show ?thesis
      by (auto simp: decode_varint_loop.simps[of buffer pos result shift] split: if_splits)
  next
    case False
    then have "decode_varint_loop buffer (pos + 1)
        (result OR push_bit shift (unat (buffer ! pos) AND 0x7F)) (shift + 7) = Inr (v, p')"
      using "1.prems" by (simp add: decode_varint_loop.simps[of buffer pos result shift])
    with False "1.IH" have "pos + 1 < p' \<and> p' \<le> length buffer" by blast
    then show ?thesis by simp
  qed
qed

lemma decode_varint_loop_take:
  "decode_varint_loop b p r sh = Inr (v, p') \<Longrightarrow> p' \<le> n \<Longrightarrow>
   decode_varint_loop (take n b) p r sh = Inr (v, p')"
proof (induction b p r sh rule: decode_varint_loop.induct)
  case (1 buffer pos result shift)
  from decode_varint_loop_advances[OF "1.prems"(1)] "1.prems"(2)
  have pos: "pos < n" "pos < length buffer" by simp_all
  then have nth: "take n buffer ! pos = buffer ! pos" and len: "\<not> length (take n buffer) \<le> pos"
    by simp_all
  show ?case
  proof (cases "unat (buffer ! pos) AND 0x80 = 0 \<or> 64 \<le> shift + 7")
    case True
    with "1.prems" pos show ?thesis
      by (auto simp: decode_varint_loop.simps[of buffer pos result shift]
            decode_varint_loop.simps[of "take n buffer" pos result shift] split: if_splits)
  next
    case False
    then have "decode_varint_loop buffer (pos + 1)
        (result OR push_bit shift (unat (buffer ! pos) AND 0x7F)) (shift + 7) = Inr (v, p')"
      using "1.prems" pos by (simp add: decode_varint_loop.simps[of buffer pos result shift])
    with False pos "1.IH" "1.prems"(2)
    have "decode_varint_loop (take n buffer) (pos + 1)
        (result OR push_bit shift (unat (buffer ! pos) AND 0x7F)) (shift + 7) = Inr (v, p')"
      by simp
    then show ?thesis
      using False pos
      by (simp add: decode_varint_loop.simps[of "take n buffer" pos result shift])
  qed
qed

lemma decode_varint_take:
  "decode_varint b 0 = Inr (v, p) \<Longrightarrow> p \<le> n \<Longrightarrow> decode_varint (take n b) 0 = Inr (v, p)"
  unfolding decode_varint_def by (rule decode_varint_loop_take)

lemma is_frame_cut:
  assumes dec: "decode_varint b 0 = Inr (result, pos)"
    and complete: "pos + drop_bit 1 result \<le> length b"
  shows "is_frame (take (pos + drop_bit 1 result) b) (take (drop_bit 1 result) (drop pos b))"
proof -
  let ?raw = "take (pos + drop_bit 1 result) b"
  let ?payload = "take (drop_bit 1 result) (drop pos b)"
  have d: "decode_varint ?raw 0 = Inr (result, pos)"
    using dec by (rule decode_varint_take) simp
  have "take pos ?raw = take pos b"
    by (simp add: min_def)
  moreover have "?raw = take pos b @ ?payload"
    by (rule take_add)
  ultimately have a: "?raw = take pos ?raw @ ?payload"
    by (simp only:)
  have l: "length ?payload = drop_bit 1 result"
    using complete by simp
  from a l show ?thesis
    unfolding is_frame_def d by (simp only: sum.case prod.case)
qed

lemma data_received_loop_frames:
  "data_received_loop parse s = (s', frames, raised) \<Longrightarrow>
   \<exists>raws. list_all2 is_frame raws frames \<and> buffer s = concat raws @ buffer s' \<and>
     (raised = None \<longrightarrow> buffer s' = [] \<or> partial_frame (buffer s')) \<and>
     (\<forall>e. raised = Some e \<longrightarrow>
        decode_varint (buffer s') 0 = Inl e \<or> (frames \<noteq> [] \<and> parse (last frames) = Inl e))"
proof (induction parse s arbitrary: s' frames raised rule: data_received_loop.induct)
  case (1 parse s)
  show ?case
  proof (cases "length (buffer s) = 0")
    case True
    with "1.prems" show ?thesis
      by (simp add: data_received_loop.simps[of parse s])
  next
    case False
    note nonempty = this
    show ?thesis
    proof (cases "decode_varint (buffer s) 0")
      case (Inl e)
      with nonempty "1.prems" show ?thesis
        by (auto simp: data_received_loop.simps[of parse s])
    next
      case (Inr b)
      obtain result pos where b: "b = (result, pos)" by (cases b)
      note dec = Inr[unfolded b]
      show ?thesis
      proof (cases "pos + drop_bit 1 result \<le> length (buffer s)")
        case False
        with nonempty dec "1.prems" show ?thesis
          by (auto simp: data_received_loop.simps[of parse s] partial_frame_def)
      next
        case True
        note complete = this
        let ?raw = "take (pos + drop_bit 1 result) (buffer s)"
        let ?payload = "take (drop_bit 1 result) (drop pos (buffer s))"
        have fr: "is_frame ?raw ?payload"
          using dec complete by (rule is_frame_cut)
        show ?thesis
        proof (cases "parse ?payload")
          case (Inl e)
          with nonempty dec complete "1.prems"
          have "s' = s\<lparr>buffer := drop (pos + drop_bit 1 result) (buffer s)\<rparr>"
            "frames = [?payload]" "raised = Some e"
            by (simp_all add: data_received_loop.simps[of parse s])
          with fr Inl show ?thesis
            by (intro exI[of _ "[?raw]"]) simp
        next
          case (Inr ba)
          obtain name message where ba: "ba = (name, message)" by (cases ba)
          let ?s1 = "process_request (s\<lparr>buffer := drop (pos + drop_bit 1 result) (buffer s)\<rparr>)
                       name message"
          obtain s2 frames2 raised2 where rec: "data_received_loop parse ?s1 = (s2, frames2, raised2)"
            by (cases "data_received_loop parse ?s1")
          from nonempty dec complete Inr ba rec "1.prems"
          have res: "s' = s2" "frames = ?payload # frames2" "raised = raised2"
            by (simp_all add: data_received_loop.simps[of parse s])
          from "1.IH"[OF nonempty \<open>decode_varint (buffer s) 0 = Inr b\<close> b[symmetric] complete
                 Inr ba[symmetric] rec]
          obtain raws where raws: "list_all2 is_frame raws frames2"
            "buffer ?s1 = concat raws @ buffer s2"
            "raised2 = None \<longrightarrow> buffer s2 = [] \<or> partial_frame (buffer s2)"
            "\<forall>e. raised2 = Some e \<longrightarrow>
               decode_varint (buffer s2) 0 = Inl e \<or> (frames2 \<noteq> [] \<and> parse (last frames2) = Inl e)"
            by blast
          have "buffer s = ?raw @ buffer ?s1"
            by (simp add: process_request_def)
          with raws fr res show ?thesis
            by (intro exI[of _ "?raw # raws"]) auto
        qed
      qed
    qed
  qed
qed

text \<open>
  C5. After an ingestion, whether it returned or raised, the bytes held before it
  followed by the bytes received are the frames it extracted, each one complete
  (the whole length prefix and the announced number of payload bytes), followed by
  the buffer it leaves: the buffer is the unparsed suffix. When the ingestion returns
  normally the buffer left is empty or a partial frame, kept as it is; when it raises,
  either the decoder failed on the buffer left or the parser failed on the last frame
  extracted.
\<close>

theorem buffer_is_unparsed_suffix:
  "data_received parse s data = (s', frames, raised) \<Longrightarrow>
   \<exists>raws. list_all2 is_frame raws frames \<and> buffer s @ data = concat raws @ buffer s' \<and>
     (raised = None \<longrightarrow> buffer s' = [] \<or> partial_frame (buffer s')) \<and>
     (\<forall>e. raised = Some e \<longrightarrow>
        decode_varint (buffer s') 0 = Inl e \<or> (frames \<noteq> [] \<and> parse (last frames) = Inl e))"
  using data_received_loop_frames[of parse "s\<lparr>buffer := buffer s @ data\<rparr>" s' frames raised]
  by (simp add: data_received_def)

theorem buffer_is_unparsed_suffix_witness:
  "snd (data_received sample_parse (new_protocol 0 {} (Some sample_peer)) [6, 1, 1, 1, 2, 2, 5]) = ([[1, 1, 1], [2]], None) \<and>
   (\<exists>raws. list_all2 is_frame raws [[1, 1, 1], [2]] \<and>
      [6, 1, 1, 1, 2, 2, 5] =
        concat raws @ buffer (fst (data_received sample_parse (new_protocol 0 {} (Some sample_peer)) [6, 1, 1, 1, 2, 2, 5]))) \<and>
   buffer (fst (data_received sample_parse (new_protocol 0 {} (Some sample_peer)) [6, 1, 1, 1, 2, 2, 5])) = [5] \<and>
   partial_frame [5]"
proof -
  have ev: "snd (data_received sample_parse (new_protocol 0 {} (Some sample_peer)) [6, 1, 1, 1, 2, 2, 5]) =
              ([[1, 1, 1], [2]], None)"
    by code_simp
  have b: "buffer (fst (data_received sample_parse (new_protocol 0 {} (Some sample_peer)) [6, 1, 1, 1, 2, 2, 5])) = [5]"
    by code_simp
  have p: "partial_frame [5]"
    by code_simp
  have h: "data_received sample_parse (new_protocol 0 {} (Some sample_peer)) [6, 1, 1, 1, 2, 2, 5] =
             (fst (data_received sample_parse (new_protocol 0 {} (Some sample_peer)) [6, 1, 1, 1, 2, 2, 5]),
              [[1, 1, 1], [2]], None)"
    using ev by (metis prod.collapse)
  from buffer_is_unparsed_suffix[OF h] ev b p show ?thesis
    by (simp add: new_protocol_def)
qed

section \<open>Framing round trip\<close>

lemma and_127: "(v::nat) AND 0x7F = take_bit 7 v"
  by (simp add: take_bit_eq_mask mask_eq_exp_minus_1)

lemma bit_128: "bit (128::nat) n \<longleftrightarrow> n = 7"
proof -
  have "(128::nat) = 2 ^ 7" by simp
  then show ?thesis by (simp only: bit_exp_iff) auto
qed

lemma unat_byte: "unat (of_nat n :: byte) = take_bit 8 n"
  by (simp add: unsigned_of_nat)

lemma last_flag: "unat (of_nat (v AND 0x7F) :: byte) AND 0x80 = 0"
  unfolding and_127 unat_byte
  by (rule bit_eqI) (auto simp: bit_simps bit_128)

lemma last_low: "unat (of_nat (v AND 0x7F) :: byte) AND 0x7F = take_bit 7 v"
  unfolding and_127 unat_byte
  by (rule bit_eqI) (auto simp: bit_simps)

lemma cont_flag: "unat (of_nat (0x80 OR (v AND 0x7F)) :: byte) AND 0x80 \<noteq> 0"
proof
  assume "unat (of_nat (0x80 OR (v AND 0x7F)) :: byte) AND 0x80 = 0"
  then have "bit (take_bit 8 (128 OR take_bit 7 v) AND (128::nat)) 7 = bit (0::nat) 7"
    unfolding and_127 unat_byte by simp
  then show False by (simp add: bit_simps bit_128)
qed

lemma cont_low: "unat (of_nat (0x80 OR (v AND 0x7F)) :: byte) AND 0x7F = take_bit 7 v"
  unfolding and_127 unat_byte
  by (rule bit_eqI) (auto simp: bit_simps bit_128)

lemma glue_groups:
  "((r::nat) OR push_bit s (take_bit 7 v)) OR push_bit (s + 7) (drop_bit 7 v) = r OR push_bit s v"
proof (rule bit_eqI)
  fix n
  show "bit ((r OR push_bit s (take_bit 7 v)) OR push_bit (s + 7) (drop_bit 7 v)) n =
        bit (r OR push_bit s v) n"
  proof (cases "n - s < 7")
    case True
    then show ?thesis by (auto simp: bit_simps)
  next
    case False
    then have "7 + (n - (s + 7)) = n - s" "s + 7 \<le> n" by auto
    then show ?thesis by (auto simp: bit_simps)
  qed
qed

lemma shift_bound: "7 dvd (shift::nat) \<Longrightarrow> shift < 63 \<Longrightarrow> shift + 7 < 64"
  by (elim dvdE) auto

lemma decode_encode_loop:
  "v < 2 ^ (70 - shift) \<Longrightarrow> 7 dvd shift \<Longrightarrow> shift \<le> 63 \<Longrightarrow>
   decode_varint_loop (pre @ encode_varint v @ rest) (length pre) result shift =
     Inr (result OR push_bit shift v, length pre + length (encode_varint v))"
proof (induction v arbitrary: pre result shift rule: encode_varint.induct)
  case (1 v)
  show ?case
  proof (cases "drop_bit 7 v = 0")
    case True
    then have v: "take_bit 7 v = v"
      by (metis bits_ident push_bit_of_0 add_0)
    have enc: "encode_varint v = [of_nat (v AND 0x7F)]"
      using True by (simp add: encode_varint.simps)
    show ?thesis
      unfolding enc
      by (subst decode_varint_loop.simps) (simp add: last_flag last_low v)
  next
    case False
    have enc: "encode_varint v = of_nat (0x80 OR (v AND 0x7F)) # encode_varint (drop_bit 7 v)"
      using False by (simp add: encode_varint.simps)
    from False have "2 ^ 7 \<le> v"
      by (simp add: drop_bit_eq_div)
    with "1.prems"(1) have "(2::nat) ^ 7 < 2 ^ (70 - shift)" by simp
    then have "7 < 70 - shift"
      by (simp only: power_strict_increasing_iff one_less_numeral_iff semiring_norm)
    then have lt: "shift < 63" by simp
    then have s7: "shift + 7 < 64" using "1.prems"(2) by (rule shift_bound[rotated])
    have "70 - shift = 7 + (70 - (shift + 7))" using lt by simp
    then have "v < 2 ^ 7 * 2 ^ (70 - (shift + 7))"
      using "1.prems"(1) by (simp only: power_add)
    then have small: "drop_bit 7 v < 2 ^ (70 - (shift + 7))"
      by (simp add: drop_bit_eq_div less_mult_imp_div_less mult.commute)
    have d: "7 dvd shift + 7" using "1.prems"(2) by simp
    have le: "shift + 7 \<le> 63" using s7 by simp
    note IH = "1.IH"[OF False small d le,
        of "pre @ [of_nat (0x80 OR (v AND 0x7F))]" "result OR push_bit shift (take_bit 7 v)"]
    show ?thesis
      unfolding enc
      apply (subst decode_varint_loop.simps)
      using IH s7 by (simp add: cont_flag cont_low glue_groups)
  qed
qed

lemma decode_encode:
  "v < 2 ^ 70 \<Longrightarrow> decode_varint (encode_varint v @ rest) 0 = Inr (v, length (encode_varint v))"
  using decode_encode_loop[of v 0 "[]" rest 0] by (simp add: decode_varint_def)

lemma encode_varint_nonempty: "encode_varint v \<noteq> []"
  by (subst encode_varint.simps) simp

lemma data_received_loop_empty:
  "buffer s = [] \<Longrightarrow> data_received_loop parse s = (s, [], None)"
  by (simp add: data_received_loop.simps[of parse s])

lemma data_received_loop_partial:
  "decode_varint (buffer s) 0 = Inr (result, pos) \<Longrightarrow>
   \<not> pos + drop_bit 1 result \<le> length (buffer s) \<Longrightarrow>
   data_received_loop parse s = (s, [], None)"
  by (simp add: data_received_loop.simps[of parse s])

lemma data_received_loop_complete:
  assumes dec: "decode_varint (buffer s) 0 = Inr (result, pos)"
    and complete: "pos + drop_bit 1 result \<le> length (buffer s)"
  shows "data_received_loop parse s =
           (case parse (take (drop_bit 1 result) (drop pos (buffer s))) of
              Inl e \<Rightarrow>
                (s\<lparr>buffer := drop (pos + drop_bit 1 result) (buffer s)\<rparr>,
                 [take (drop_bit 1 result) (drop pos (buffer s))], Some e)
            | Inr (name, message) \<Rightarrow>
                (case data_received_loop parse
                        (process_request
                           (s\<lparr>buffer := drop (pos + drop_bit 1 result) (buffer s)\<rparr>)
                           name message) of
                   (s', frames, e) \<Rightarrow>
                     (s', take (drop_bit 1 result) (drop pos (buffer s)) # frames, e)))"
proof -
  from dec have "0 < pos \<and> pos \<le> length (buffer s)"
    unfolding decode_varint_def by (rule decode_varint_loop_advances)
  then have "length (buffer s) \<noteq> 0" by auto
  then show ?thesis
    using dec complete by (subst data_received_loop.simps) simp
qed

lemma decode_frame:
  "length payload < 2 ^ 69 \<Longrightarrow>
   decode_varint (frame payload) 0 =
     Inr (push_bit 1 (length payload), length (encode_varint (push_bit 1 (length payload))))"
  unfolding frame_def by (rule decode_encode) (simp add: push_bit_eq_mult)

lemma data_received_loop_whole_frame:
  assumes small: "length payload < 2 ^ 69"
  shows "data_received_loop parse (s\<lparr>buffer := frame payload\<rparr>) = delivered parse s payload"
proof -
  define v where "v = push_bit 1 (length payload)"
  define prefix where "prefix = encode_varint v"
  let ?s0 = "s\<lparr>buffer := frame payload\<rparr>"
  have fr: "frame payload = prefix @ payload"
    by (simp add: frame_def prefix_def v_def)
  have dec: "decode_varint (buffer ?s0) 0 = Inr (v, length prefix)"
    using decode_frame[OF small] by (simp add: prefix_def v_def)
  have len: "drop_bit 1 v = length payload"
    by (simp add: v_def drop_bit_eq_div push_bit_eq_mult)
  have complete: "length prefix + drop_bit 1 v \<le> length (buffer ?s0)"
    unfolding len fr by simp
  have cut: "take (drop_bit 1 v) (drop (length prefix) (buffer ?s0)) = payload"
    "drop (length prefix + drop_bit 1 v) (buffer ?s0) = []"
    unfolding len fr by simp_all
  have s_id: "?s0\<lparr>buffer := []\<rparr> = s\<lparr>buffer := []\<rparr>" by simp
  have "data_received_loop parse ?s0 = (case parse payload of
              Inl e \<Rightarrow> (s\<lparr>buffer := []\<rparr>, [payload], Some e)
            | Inr (name, message) \<Rightarrow>
                (case data_received_loop parse (process_request (s\<lparr>buffer := []\<rparr>) name message) of
                   (s', frames, e) \<Rightarrow> (s', payload # frames, e)))"
    unfolding data_received_loop_complete[OF dec complete] cut s_id ..
  also have "\<dots> = delivered parse s payload"
    by (simp add: delivered_def data_received_loop_empty process_request_def split: sum.splits)
  finally show ?thesis .
qed

lemma data_received_loop_part_of_frame:
  assumes small: "length payload < 2 ^ 69"
    and part: "b = take (length b) (frame payload)"
    and prefix: "length (encode_varint (push_bit 1 (length payload))) \<le> length b"
    and short: "length b < length (frame payload)"
  shows "data_received_loop parse (s\<lparr>buffer := b\<rparr>) = (s\<lparr>buffer := b\<rparr>, [], None)"
proof -
  let ?v = "push_bit 1 (length payload)"
  have "decode_varint (take (length b) (frame payload)) 0 = Inr (?v, length (encode_varint ?v))"
    using decode_frame[OF small] prefix by (rule decode_varint_take)
  then have dec: "decode_varint (buffer (s\<lparr>buffer := b\<rparr>)) 0 = Inr (?v, length (encode_varint ?v))"
    using part by simp
  have len: "drop_bit 1 ?v = length payload"
    by (simp add: drop_bit_eq_div push_bit_eq_mult)
  have "\<not> length (encode_varint ?v) + drop_bit 1 ?v \<le> length (buffer (s\<lparr>buffer := b\<rparr>))"
    unfolding len using short by (simp add: frame_def)
  with dec show ?thesis by (rule data_received_loop_partial)
qed

lemma feed_empty_fragments:
  "buffer s = [] \<Longrightarrow> concat frags = [] \<Longrightarrow> feed parse s frags = (s, [], None)"
proof (induction frags)
  case Nil
  then show ?case by simp
next
  case (Cons d ds)
  then have "data_received parse s d = (s, [], None)"
    by (simp add: data_received_def data_received_loop_empty)
  with Cons show ?case by simp
qed

lemma feed_fragments:
  assumes small: "length payload < 2 ^ 69"
  shows "buffer s @ concat frags = frame payload \<Longrightarrow>
         length (buffer s) < length (frame payload) \<Longrightarrow>
         (\<forall>k\<le>length frags. length (buffer s) + length (concat (take k frags)) = 0 \<or>
            length (encode_varint (push_bit 1 (length payload)))
              \<le> length (buffer s) + length (concat (take k frags))) \<Longrightarrow>
         feed parse s frags = delivered parse s payload"
proof (induction frags arbitrary: s)
  case Nil
  then show ?case by simp
next
  case (Cons d ds)
  let ?plen = "length (encode_varint (push_bit 1 (length payload)))"
  let ?b = "buffer s @ d"
  let ?s1 = "s\<lparr>buffer := ?b\<rparr>"
  have cat: "?b @ concat ds = frame payload" using Cons.prems(1) by simp
  then have bound: "length ?b \<le> length (frame payload)"
    by (metis length_append le_add1)
  from Cons.prems(3)[rule_format, of 1]
  have cut1: "length ?b = 0 \<or> ?plen \<le> length ?b" by simp
  have later: "\<forall>k\<le>length ds. length (buffer ?s1) + length (concat (take k ds)) = 0 \<or>
                 ?plen \<le> length (buffer ?s1) + length (concat (take k ds))"
  proof (intro allI impI)
    fix k assume "k \<le> length ds"
    then have "Suc k \<le> length (d # ds)" by simp
    from Cons.prems(3)[rule_format, OF this] show
      "length (buffer ?s1) + length (concat (take k ds)) = 0 \<or>
       ?plen \<le> length (buffer ?s1) + length (concat (take k ds))"
      by (simp add: add.assoc)
  qed
  have drop_buf: "?s1\<lparr>buffer := []\<rparr> = s\<lparr>buffer := []\<rparr>" by simp
  consider (empty) "?b = []" | (part) "?b \<noteq> []" "length ?b < length (frame payload)"
    | (whole) "length ?b = length (frame payload)"
    using bound by (cases "?b = []"; cases "length ?b = length (frame payload)") auto
  then show ?case
  proof cases
    case empty
    then have s1: "?s1 = s" by simp
    have "data_received parse s d = (s, [], None)"
      using empty by (simp add: data_received_def data_received_loop_empty)
    moreover have "feed parse s ds = delivered parse s payload"
      using Cons.IH[of s] Cons.prems(2) cat later empty by simp
    ultimately show ?thesis by simp
  next
    case part
    with cut1 have pre: "?plen \<le> length ?b" by auto
    have tk: "?b = take (length ?b) (frame payload)"
      using cat by (metis append_eq_conv_conj)
    have "data_received parse s d = (?s1, [], None)"
      unfolding data_received_def
      using data_received_loop_part_of_frame[OF small tk pre part(2)] .
    moreover have "feed parse ?s1 ds = delivered parse ?s1 payload"
      using Cons.IH[of ?s1] cat part(2) later by simp
    moreover have "delivered parse ?s1 payload = delivered parse s payload"
      by (simp only: delivered_def drop_buf)
    ultimately show ?thesis by simp
  next
    case whole
    with cat have rest: "concat ds = []"
      by (metis append_eq_conv_conj drop_all order_refl)
    with cat have all: "?b = frame payload" by simp
    have dr: "data_received parse s d = delivered parse s payload"
      unfolding data_received_def all by (rule data_received_loop_whole_frame[OF small])
    show ?thesis
    proof (cases "parse payload")
      case (Inl e)
      with dr show ?thesis by (simp add: delivered_def)
    next
      case (Inr nm)
      obtain name message where nm: "nm = (name, message)" by (cases nm)
      let ?s2 = "process_request (s\<lparr>buffer := []\<rparr>) name message"
      have "buffer ?s2 = []" by (simp add: process_request_def)
      then have "feed parse ?s2 ds = (?s2, [], None)"
        using rest by (rule feed_empty_fragments)
      with dr Inr nm show ?thesis by (simp add: delivered_def)
    qed
  qed
qed

lemma frame_roundtrip_fragments:
  assumes "length payload < 2 ^ 69" and "buffer s = []" and "concat frags = frame payload"
    and "\<forall>k\<le>length frags. length (concat (take k frags)) = 0 \<or>
           length (encode_varint (push_bit 1 (length payload))) \<le> length (concat (take k frags))"
  shows "feed parse s frags = delivered parse s payload"
proof -
  have "0 < length (frame payload)"
    by (simp add: frame_def encode_varint_nonempty)
  with assms show ?thesis
    by (intro feed_fragments) simp_all
qed

lemma frame_roundtrip_one_call:
  "length payload < 2 ^ 69 \<Longrightarrow> buffer s = [] \<Longrightarrow>
   data_received parse s (frame payload) = delivered parse s payload"
  using data_received_loop_whole_frame[of payload parse s]
  by (simp add: data_received_def)

text \<open>
  C4. The frame of a payload of 64 bytes is split after the first byte of its two-byte
  length prefix. The first ingestion raises \<open>IndexError\<close> out of the varint decoder
  with nothing extracted, so no payload comes out of this fragmentation, whereas the
  same bytes in one fragment give exactly the payload. The lemmas above show that the
  round trip holds for every payload shorter than \<open>2 ^ 69\<close> bytes whenever no fragment
  ends inside the length prefix.
\<close>

theorem frame_split_inside_prefix_raises:
  "concat split_prefix = frame (1 # replicate 63 0) \<and>
   feed sample_parse (new_protocol 0 {} (Some sample_peer)) split_prefix =
     ((new_protocol 0 {} (Some sample_peer))\<lparr>buffer := [0x80]\<rparr>, [], Some IndexError) \<and>
   snd (feed sample_parse (new_protocol 0 {} (Some sample_peer)) [frame (1 # replicate 63 0)]) =
     ([1 # replicate 63 0], None)"
  by code_simp

section \<open>Handler binding\<close>

lemma bound_handler_kept:
  "handler s = Some h \<Longrightarrow> t < length (heap s) \<Longrightarrow> arg_name (heap s ! t) = name \<Longrightarrow>
   handler (start s t) = Some h \<and>
   (name \<in> set (operations h) \<longrightarrow> phase (heap (start s t) ! t) = AwaitOperation h) \<and>
   (name \<notin> set (operations h) \<and> name \<noteq> ''echo'' \<and> name \<noteq> ''flush'' \<longrightarrow>
      phase (heap (start s t) ! t) = Done (Inl (not_implemented name)))"
  by (simp add: start_def dispatch_def heap_set_phase handler_set_phase conclude_def)

text \<open>
  C3. Two pipelined requests both find no handler bound and both ask the factory. When
  the factory answers the first, the informational handler is bound; when it answers
  the second, \<^verbatim>\<open>self.handler\<close> is assigned again and the consensus handler replaces it,
  and the begin_block request is dispatched through the second handler instead of failing
  with the unimplemented-operation error.
\<close>

theorem handler_bound_twice:
  "tasks two_pipelined = [(''info'', 0), (''begin_block'', 1)] \<and>
   handler two_pipelined = Some (Handler 10 [''info'']) \<and>
   phase (heap two_pipelined ! 1) = AwaitFactory ConsensusHandler \<and>
   handler (fire sample_parse sample_serialize two_pipelined
              (FactoryReturns 1 (Inr (Handler 11 [''begin_block''])))) =
     Some (Handler 11 [''begin_block'']) \<and>
   phase (heap (fire sample_parse sample_serialize two_pipelined
                  (FactoryReturns 1 (Inr (Handler 11 [''begin_block''])))) ! 1) =
     AwaitOperation (Handler 11 [''begin_block''])"
  by code_simp

section \<open>Connection loss\<close>

lemma close_callback_never_runs:
  "fst (close_done serialize (close (connection_lost s exc))) = close (connection_lost s exc)"
  by (auto simp: close_done_def call_def close_def connection_lost_def
        split: option.splits sum.splits close_phase.splits)

lemma pending_units_not_forced:
  "tasks s \<noteq> [] \<Longrightarrow>
   heap (close (connection_lost s exc)) = heap s \<and>
   close_phase (the (close_task (close (connection_lost s exc)))) = CloseDone (Some RuntimeError)"
  by (cases "tasks s"; cases "hd (tasks s)")
     (auto simp: close_def connection_lost_def set_exception_def)

text \<open>
  C2. After the loss of a registered connection with one unit pending: the unit is still
  pending with its phase unchanged, the task of \<^verbatim>\<open>close()\<close> has ended with the
  \<open>RuntimeError\<close> of \<^verbatim>\<open>Task.set_exception\<close>, its done callback raises \<open>TypeError\<close>
  because it takes no parameter, and the connection is still in the connection set.
\<close>

theorem connection_lost_leaves_connection_registered:
  "tasks lost_with_pending = [(''info'', 0)] \<and>
   map phase (heap lost_with_pending) = [AwaitFactory InfoHandler] \<and>
   close_task lost_with_pending =
     Some \<lparr>cause = ConnectionResetError ''Connection reset'',
           close_phase = CloseDone (Some RuntimeError),
           close_callback = Lambda 0 DiscardSelf\<rparr> \<and>
   snd (close_done sample_serialize lost_with_pending) = Some TypeError \<and>
   self lost_with_pending \<in> connections (fst (close_done sample_serialize lost_with_pending))"
  by code_simp

end
